theory Spec2Isabelle
  imports Main "HOL-Library.Word"
begin

section \<open>The quiver arrow for Qpid Proton C++: data\<close>

text \<open>
  The source is one translation unit, \<^verbatim>\<open>quiver-arrow-qpid-proton-cpp.cpp\<close>: a
  \<^verbatim>\<open>struct handler\<close> whose overridden callbacks are called by the Proton container,
  and \<^verbatim>\<open>main\<close>. The callbacks are embedded as functions on a record of the struct's
  fields; what they write to \<^verbatim>\<open>std::cout\<close> and the calls they make into the
  container, the connection, the sender and the listener are appended to two logs
  kept beside the fields.
\<close>

type_synonym c_int = "32 word"  \<comment> \<open>\<^verbatim>\<open>int\<close>; compared as signed with \<open><s\<close>\<close>
type_synonym int64 = "64 word"  \<comment> \<open>\<^verbatim>\<open>int64_t\<close>, \<^verbatim>\<open>long\<close>\<close>

subsection \<open>Decimal output\<close>

definition digit :: "nat \<Rightarrow> char" where
  "digit d = ''0123456789'' ! d"

fun show_nat :: "nat \<Rightarrow> string" where
  "show_nat n = (if n < 10 then [digit n] else show_nat (n div 10) @ [digit (n mod 10)])"

declare show_nat.simps [simp del]

definition show_int :: "int \<Rightarrow> string" where
  "show_int i = (if i < 0 then CHR ''-'' # show_nat (nat (- i)) else show_nat (nat i))"

text \<open>\<^verbatim>\<open>std::to_string(int)\<close> and \<^verbatim>\<open>operator<<(int64_t)\<close>: signed decimal.\<close>

definition to_string :: "c_int \<Rightarrow> string" where
  "to_string x = show_int (sint x)"

definition show_int64 :: "int64 \<Rightarrow> string" where
  "show_int64 x = show_int (sint x)"

definition newline :: string where
  "newline = [CHR 0x0A]"

subsection \<open>Values of the protocol engine\<close>

text \<open>
  A \<^verbatim>\<open>proton::scalar\<close> (also the type behind \<^verbatim>\<open>proton::message_id\<close>) as far as this
  program meets it: empty, a 64-bit integer or a string.
\<close>

datatype scalar = Null | Long int64 | Str string

record message =
  m_body :: string
  m_id :: scalar
  m_properties :: "string \<rightharpoonup> scalar"
  m_durable :: bool

text \<open>\<^verbatim>\<open>proton::message m(body)\<close>: no id, no properties, not durable.\<close>

definition new_message :: "string \<Rightarrow> message" where
  "new_message b = \<lparr>m_body = b, m_id = Null, m_properties = Map.empty, m_durable = False\<rparr>"

text \<open>\<^verbatim>\<open>m.properties().get(k)\<close>: the value stored under \<open>k\<close>, an empty value when there is none.\<close>

definition get_property :: "message \<Rightarrow> string \<Rightarrow> scalar" where
  "get_property m k = (case m_properties m k of None \<Rightarrow> Null | Some v \<Rightarrow> v)"

text \<open>
  Handles are numbers given out by the engine; a default-constructed
  \<^verbatim>\<open>proton::connection\<close> or \<^verbatim>\<open>proton::listener\<close> is \<open>None\<close>, which is what
  \<^verbatim>\<open>!!connection\<close> tests.
\<close>

type_synonym connection = "nat option"
type_synonym listener = "nat option"

record container =
  new_connection :: nat  \<comment> \<open>the handle \<^verbatim>\<open>c.connect\<close> returns\<close>
  new_listener :: nat  \<comment> \<open>the handle \<^verbatim>\<open>c.listen\<close> returns\<close>

record sender =
  credit :: c_int  \<comment> \<open>\<^verbatim>\<open>s.credit()\<close>\<close>

record receiver =
  target_address :: string  \<comment> \<open>\<^verbatim>\<open>r.target().address()\<close>\<close>

record transport =
  t_error :: string  \<comment> \<open>\<^verbatim>\<open>t.error().what()\<close>\<close>

text \<open>The only closure the program hands to the engine is \<^verbatim>\<open>[this] { stop(); }\<close>.\<close>

datatype callback = Cb_stop

text \<open>The calls the callbacks make into the engine, in the order they are made.\<close>

datatype call =
    Connect string string  \<comment> \<open>\<^verbatim>\<open>c.connect(domain, opts)\<close>, with the SASL mechanisms allowed\<close>
  | Listen string string  \<comment> \<open>\<^verbatim>\<open>c.listen(domain, opts)\<close>\<close>
  | Schedule int64 callback  \<comment> \<open>\<^verbatim>\<open>c.schedule(d, f)\<close>, \<open>d\<close> in milliseconds\<close>
  | Open_sender nat string  \<comment> \<open>\<^verbatim>\<open>c.open_sender(path)\<close>\<close>
  | Open_receiver nat string c_int  \<comment> \<open>\<^verbatim>\<open>c.open_receiver(path, opts)\<close>, with the credit window\<close>
  | Conn_open nat  \<comment> \<open>\<^verbatim>\<open>connection.open()\<close>\<close>
  | Rcv_open string c_int  \<comment> \<open>\<^verbatim>\<open>r.open(ropts)\<close>: target address and credit window\<close>
  | Send message  \<comment> \<open>\<^verbatim>\<open>s.send(m)\<close>\<close>
  | Conn_close nat  \<comment> \<open>\<^verbatim>\<open>connection.close()\<close>\<close>
  | Lsn_stop listener  \<comment> \<open>\<^verbatim>\<open>listener.stop()\<close>\<close>

subsection \<open>Errors\<close>

text \<open>
  What leaves a callback other than by returning: \<^verbatim>\<open>throw std::exception()\<close>, the
  \<^verbatim>\<open>std::length_error\<close> of \<^verbatim>\<open>std::string(n, 'x')\<close> for an \<open>n\<close> beyond the maximal
  size, the \<^verbatim>\<open>proton::error\<close> of the engine's error hook, and a failed \<^verbatim>\<open>assert\<close>,
  which aborts the process and is not an exception.
\<close>

datatype error = Std_exception | Length_error | Proton_error string | Assertion_failed

text \<open>\<^verbatim>\<open>e.what()\<close>; the first two texts are those of the GNU C++ library.\<close>

fun what :: "error \<Rightarrow> string" where
  "what Std_exception = ''std::exception''"
| "what Length_error = ''basic_string::_M_create''"
| "what (Proton_error w) = w"
| "what Assertion_failed = []"

subsection \<open>The handler\<close>

record handler =
  connection_mode :: string
  channel_mode :: string
  operation :: string
  id_str :: string  \<comment> \<open>the field \<^verbatim>\<open>id\<close>\<close>
  host :: string
  port :: string
  path :: string
  seconds :: c_int
  messages :: c_int
  body_size :: c_int
  credit_window :: c_int
  durable :: bool
  connection :: connection
  listener :: listener
  body :: string
  start_time :: int64
  sent :: c_int
  received :: c_int
  accepted :: c_int
  cout :: "string list"  \<comment> \<open>what was written to \<^verbatim>\<open>std::cout\<close>, one entry per output statement\<close>
  calls :: "call list"  \<comment> \<open>the calls made into the engine\<close>
  ticks :: nat  \<comment> \<open>how often the clock was read\<close>

text \<open>
  The surroundings of the handler that the source leaves to the platform and the
  engine: the readings of the system clock, in the order they are taken, and how the
  engine prints a scalar.
\<close>

record env =
  clock :: "nat \<Rightarrow> int64"
  show_scalar :: "scalar \<Rightarrow> string"

text \<open>\<^verbatim>\<open>now()\<close>: the next reading of the clock, in milliseconds since the epoch.\<close>

definition now :: "env \<Rightarrow> handler \<Rightarrow> int64 \<times> handler" where
  "now E h = (clock E (ticks h), h\<lparr>ticks := Suc (ticks h)\<rparr>)"

text \<open>\<^verbatim>\<open>handler h;\<close> followed by the assignments of \<^verbatim>\<open>main\<close> (lines 235 to 252).\<close>

definition new_handler ::
  "string \<Rightarrow> string \<Rightarrow> string \<Rightarrow> string \<Rightarrow> string \<Rightarrow> string \<Rightarrow> string \<Rightarrow>
   c_int \<Rightarrow> c_int \<Rightarrow> c_int \<Rightarrow> c_int \<Rightarrow> bool \<Rightarrow> handler" where
  "new_handler cm chm op i ho po pa secs msgs bsz cw dur =
     \<lparr>connection_mode = cm, channel_mode = chm, operation = op, id_str = i, host = ho,
      port = po, path = pa, seconds = secs, messages = msgs, body_size = bsz,
      credit_window = cw, durable = dur, connection = None, listener = None, body = [],
      start_time = 0, sent = 0, received = 0, accepted = 0, cout = [], calls = [],
      ticks = 0\<rparr>"

definition call :: "call \<Rightarrow> handler \<Rightarrow> handler" where
  "call c h = h\<lparr>calls := calls h @ [c]\<rparr>"

text \<open>
  A signed \<^verbatim>\<open>int\<close> below another one is below \<^verbatim>\<open>INT_MAX\<close>, so incrementing it does
  not overflow.
\<close>

lemma sint_succ:
  fixes x y :: c_int
  assumes "sint x < sint y"
  shows "sint (x + 1) = sint x + 1"
proof -
  have "sint y < 2 ^ 31" using sint_lt [of y] by simp
  moreover have "- (2 ^ 31) \<le> sint x" using sint_ge [of x] by simp
  ultimately have "signed_take_bit 31 (sint x + 1) = sint x + 1"
    using assms by (simp add: signed_take_bit_int_eq_self)
  then show ?thesis by (simp add: sint_word_ariths)
qed

section \<open>The callbacks\<close>

text \<open>\<^verbatim>\<open>stop()\<close>, lines 201 to 209.\<close>

definition stop :: "handler \<Rightarrow> handler" where
  "stop h =
     (let h1 = (case connection h of Some c \<Rightarrow> call (Conn_close c) h | None \<Rightarrow> h)
      in if connection_mode h1 = ''server'' then call (Lsn_stop (listener h1)) h1 else h1)"

text \<open>\<^verbatim>\<open>on_container_start\<close>, lines 98 to 119.\<close>

definition on_container_start :: "env \<Rightarrow> container \<Rightarrow> handler \<Rightarrow> error + handler" where
  "on_container_start E c h =
     (if body_size h <s 0 then Inl Length_error
      else
        let h1 = h\<lparr>body := replicate (nat (sint (body_size h))) CHR ''x''\<rparr>;
            domain = host h1 @ '':'' @ port h1
        in if connection_mode h1 = ''client'' \<or> connection_mode h1 = ''server'' then
             let h2 = (if connection_mode h1 = ''client''
                       then (call (Connect domain ''ANONYMOUS'') h1)
                              \<lparr>connection := Some (new_connection c)\<rparr>
                       else (call (Listen domain ''ANONYMOUS'') h1)
                              \<lparr>listener := Some (new_listener c)\<rparr>);
                 (t, h3) = now E h2;
                 h4 = h3\<lparr>start_time := t\<rparr>
             in if 0 <s seconds h4
                then Inr (call (Schedule (scast (seconds h4) * 1000) Cb_stop) h4)
                else Inr h4
           else Inl Std_exception)"

text \<open>\<^verbatim>\<open>on_connection_open\<close>, lines 121 to 137.\<close>

definition on_connection_open :: "nat \<Rightarrow> handler \<Rightarrow> error + handler" where
  "on_connection_open c h =
     (if channel_mode h = ''active'' then
        if operation h = ''send'' then Inr (call (Open_sender c (path h)) h)
        else if operation h = ''receive''
        then Inr (call (Open_receiver c (path h) (credit_window h)) h)
        else Inl Std_exception
      else Inr (call (Conn_open c) (h\<lparr>connection := Some c\<rparr>)))"

text \<open>\<^verbatim>\<open>on_receiver_open\<close>, lines 139 to 149.\<close>

definition on_receiver_open :: "receiver \<Rightarrow> handler \<Rightarrow> error + handler" where
  "on_receiver_open r h = Inr (call (Rcv_open (target_address r) (credit_window h)) h)"

text \<open>
  The loop of \<^verbatim>\<open>on_sendable\<close>, lines 154 to 170. Every \<^verbatim>\<open>s.send(m)\<close> uses up one
  credit of the sender.
\<close>

function send_loop :: "env \<Rightarrow> sender \<Rightarrow> handler \<Rightarrow> handler" where
  "send_loop E s h =
     (if 0 <s credit s \<and> sent h <s messages h then
        let i = to_string (sent h + 1);
            (stime, h1) = now E h;
            m = (new_message (body h1))
                  \<lparr>m_id := Str i, m_properties := [''SendTime'' \<mapsto> Long stime]\<rparr>;
            m = (if durable h1 then m\<lparr>m_durable := True\<rparr> else m);
            h2 = call (Send m) h1;
            s' = s\<lparr>credit := credit s - 1\<rparr>;
            h3 = h2\<lparr>sent := sent h2 + 1\<rparr>;
            h4 = h3\<lparr>cout := cout h3 @ [i @ '','' @ show_int64 stime @ newline]\<rparr>
        in send_loop E s' h4
      else h)"
  by pat_completeness auto
termination
  by (relation "measure (\<lambda>(E, s, h). nat (sint (messages h) - sint (sent h)))")
    (auto simp: now_def call_def word_sless_alt sint_succ)

declare send_loop.simps [simp del]

text \<open>\<^verbatim>\<open>on_sendable\<close>, lines 151 to 171.\<close>

definition on_sendable :: "env \<Rightarrow> sender \<Rightarrow> handler \<Rightarrow> error + handler" where
  "on_sendable E s h =
     (if operation h = ''send'' then Inr (send_loop E s h) else Inl Assertion_failed)"

text \<open>\<^verbatim>\<open>on_tracker_accept\<close>, lines 173 to 179; the tracker is not looked at.\<close>

definition on_tracker_accept :: "handler \<Rightarrow> error + handler" where
  "on_tracker_accept h =
     (let h1 = h\<lparr>accepted := accepted h + 1\<rparr>
      in if accepted h1 = messages h1 then Inr (stop h1) else Inr h1)"

text \<open>\<^verbatim>\<open>on_message\<close>, lines 181 to 199; the delivery is not looked at.\<close>

definition on_message :: "env \<Rightarrow> message \<Rightarrow> handler \<Rightarrow> error + handler" where
  "on_message E m h =
     (if operation h \<noteq> ''receive'' then Inl Assertion_failed
      else if received h = messages h then Inr h
      else
        let h1 = h\<lparr>received := received h + 1\<rparr>;
            i = m_id m;
            stime = get_property m ''SendTime'';
            (rtime, h2) = now E h1;
            h3 = h2\<lparr>cout := cout h2 @
                   [show_scalar E i @ '','' @ show_scalar E stime @ '','' @
                    show_int64 rtime @ newline]\<rparr>
        in if received h3 = messages h3 then Inr (stop h3) else Inr h3)"

text \<open>
  Modelled from the spec: the error hook \<^verbatim>\<open>on_error\<close> is not overridden by the handler
  and its inherited body belongs to the engine, which is not part of the source. By
  sections 4.5 and 7 of the specification an error that reaches it is surfaced as a fatal
  failure of the run: it leaves the callback as an exception carrying the text of the
  error condition.
\<close>

definition on_error :: "string \<Rightarrow> handler \<Rightarrow> error + handler" where
  "on_error w h = Inl (Proton_error w)"

text \<open>\<^verbatim>\<open>on_transport_error\<close>, lines 211 to 216.\<close>

definition on_transport_error :: "transport \<Rightarrow> handler \<Rightarrow> error + handler" where
  "on_transport_error t h =
     (if connection_mode h \<noteq> ''server'' then on_error (t_error t) h else Inr h)"

section \<open>The run of the container and \<^verbatim>\<open>main\<close>\<close>

text \<open>
  The events the container dispatches to the handler. \<open>Timer f\<close> is the firing of a
  closure given to \<^verbatim>\<open>c.schedule\<close>.
\<close>

datatype event =
    Container_start container
  | Connection_open nat
  | Receiver_open receiver
  | Sendable sender
  | Tracker_accept
  | Message_delivered message
  | Transport_error transport
  | Timer callback

fun dispatch :: "env \<Rightarrow> event \<Rightarrow> handler \<Rightarrow> error + handler" where
  "dispatch E (Container_start c) h = on_container_start E c h"
| "dispatch E (Connection_open c) h = on_connection_open c h"
| "dispatch E (Receiver_open r) h = on_receiver_open r h"
| "dispatch E (Sendable s) h = on_sendable E s h"
| "dispatch E Tracker_accept h = on_tracker_accept h"
| "dispatch E (Message_delivered m) h = on_message E m h"
| "dispatch E (Transport_error t) h = on_transport_error t h"
| "dispatch E (Timer Cb_stop) h = Inr (stop h)"

text \<open>
  \<^verbatim>\<open>proton::default_container(h, h.id).run()\<close> on the events the engine has for the
  handler: they are dispatched one at a time, and the first callback that does not
  return ends the run, with the handler as the callbacks before it left it.
\<close>

datatype outcome = Completed handler | Failed error handler

fun run :: "env \<Rightarrow> event list \<Rightarrow> handler \<Rightarrow> outcome" where
  "run E [] h = Completed h"
| "run E (e # es) h =
     (case dispatch E e h of Inl x \<Rightarrow> Failed x h | Inr h' \<Rightarrow> run E es h')"

fun final :: "outcome \<Rightarrow> handler" where
  "final (Completed h) = h"
| "final (Failed x h) = h"

text \<open>\<^verbatim>\<open>eprint\<close>, lines 56 to 58: the text it writes to \<^verbatim>\<open>std::cerr\<close>.\<close>

definition eprint :: "string \<Rightarrow> string" where
  "eprint message = ''quiver-arrow: error: '' @ message @ newline"

text \<open>
  How the process ends: it returns from \<^verbatim>\<open>main\<close> with a status, having written to
  standard output and standard error, or a failed assertion aborts it.
\<close>

datatype process =
    Exit (p_cout: "string list") (p_cerr: "string list") (p_status: int)
  | Abort (p_cout: "string list")

text \<open>
  \<^verbatim>\<open>main\<close> from the \<^verbatim>\<open>try\<close> block on, lines 254 to 261, for the handler \<open>h\<close> that the
  lines before it have filled in.
\<close>

definition main_run :: "env \<Rightarrow> event list \<Rightarrow> handler \<Rightarrow> process" where
  "main_run E es h =
     (case run E es h of
        Completed h' \<Rightarrow> Exit (cout h') [] 0
      | Failed Assertion_failed h' \<Rightarrow> Abort (cout h')
      | Failed e h' \<Rightarrow> Exit (cout h') [eprint (what e)] 1)"

subsection \<open>The timers of the container\<close>

text \<open>
  Modelled from the spec: the timer queue behind \<^verbatim>\<open>c.schedule\<close> belongs to the engine,
  which is not part of the source. By sections 4.1, 5 and 6 of the specification,
  \<^verbatim>\<open>schedule(delay, callback)\<close> sets a one-shot timer that fires at that offset from
  the call, as an event of its own among the events the engine delivers.

  A timer is the time it is due, in milliseconds of the engine's time, and its closure.
  \<open>new_timers t cs\<close> are the timers set by the calls \<open>cs\<close> made at time \<open>t\<close>.
  \<open>timeline E t_end tes P h\<close> is the sequence of events the container dispatches to the
  handler \<open>h\<close> when the events \<open>tes\<close> arrive from outside at the times paired with them,
  the timers \<open>P\<close> are pending and the run is followed until the time \<open>t_end\<close>: before an
  event of time \<open>t\<close> the pending timers due by \<open>t\<close> fire, the timers a callback sets
  become pending, and the timers due by \<open>t_end\<close> fire after the last event. A callback
  that does not return ends the sequence.
\<close>

type_synonym timer = "int \<times> callback"

fun new_timers :: "int \<Rightarrow> call list \<Rightarrow> timer list" where
  "new_timers t [] = []"
| "new_timers t (Schedule d f # cs) = (t + sint d, f) # new_timers t cs"
| "new_timers t (c # cs) = new_timers t cs"

definition due :: "int \<Rightarrow> timer list \<Rightarrow> timer list" where
  "due t P = filter (\<lambda>(d, f). d \<le> t) P"

definition not_due :: "int \<Rightarrow> timer list \<Rightarrow> timer list" where
  "not_due t P = filter (\<lambda>(d, f). \<not> d \<le> t) P"

fun timeline :: "env \<Rightarrow> int \<Rightarrow> (int \<times> event) list \<Rightarrow> timer list \<Rightarrow> handler \<Rightarrow> event list" where
  "timeline E t_end [] P h = map (\<lambda>(d, f). Timer f) (due t_end P)"
| "timeline E t_end ((t, e) # tes) P h =
     (let evs = map (\<lambda>(d, f). Timer f) (due t P) @ [e]
      in case run E evs h of
           Failed x g \<Rightarrow> evs
         | Completed h' \<Rightarrow>
             evs @ timeline E t_end tes
               (not_due t P @ new_timers t (drop (length (calls h)) (calls h'))) h')"

declare timeline.simps [simp del]

text \<open>
  The firing of a timer, and the events that reach the handler from outside after the
  container has started.
\<close>

fun is_timer :: "event \<Rightarrow> bool" where
  "is_timer (Timer f) = True"
| "is_timer e = False"

fun after_start :: "event \<Rightarrow> bool" where
  "after_start (Timer f) = False"
| "after_start (Container_start c) = False"
| "after_start e = True"

section \<open>What the properties are stated with\<close>

text \<open>The requests one call of \<^verbatim>\<open>stop()\<close> makes, read off the fields it tests.\<close>

definition stop_requests :: "handler \<Rightarrow> call list" where
  "stop_requests h =
     (case connection h of Some c \<Rightarrow> [Conn_close c] | None \<Rightarrow> []) @
     (if connection_mode h = ''server'' then [Lsn_stop (listener h)] else [])"

text \<open>The messages submitted with \<^verbatim>\<open>s.send\<close>, in order.\<close>

fun sends :: "call list \<Rightarrow> message list" where
  "sends [] = []"
| "sends (Send m # cs) = m # sends cs"
| "sends (c # cs) = sends cs"

text \<open>A clock that starts at 1000 and advances by one millisecond per reading, and a printer.\<close>

definition example_env :: env where
  "example_env = \<lparr>clock = (\<lambda>n. 1000 + of_nat n),
     show_scalar = (\<lambda>v. case v of Null \<Rightarrow> [] | Long t \<Rightarrow> show_int64 t | Str s \<Rightarrow> s)\<rparr>"

definition example_handler :: "string \<Rightarrow> string \<Rightarrow> string \<Rightarrow> c_int \<Rightarrow> c_int \<Rightarrow> handler" where
  "example_handler cm chm op secs msgs =
     new_handler cm chm op ''arrow'' ''localhost'' ''5672'' ''q0'' secs msgs 10 5 False"

text \<open>A run used as an example: two batches of credit, each message accepted.\<close>

definition example_events :: "event list" where
  "example_events =
     [Sendable \<lparr>credit = 1\<rparr>, Tracker_accept, Sendable \<lparr>credit = 5\<rparr>, Tracker_accept]"

text \<open>The same run in two parts, and a run that stalls after two messages.\<close>

definition example_first :: "event list" where
  "example_first = [Sendable \<lparr>credit = 1\<rparr>, Tracker_accept]"

definition example_rest :: "event list" where
  "example_rest = [Sendable \<lparr>credit = 5\<rparr>, Tracker_accept]"

definition example_stall :: "(int \<times> event) list" where
  "example_stall = [(5, Connection_open 4), (10, Sendable \<lparr>credit = 2\<rparr>)]"

text \<open>One pass through the body of the loop of \<^verbatim>\<open>on_sendable\<close>.\<close>

definition send_one :: "env \<Rightarrow> handler \<Rightarrow> handler" where
  "send_one E h =
     h\<lparr>ticks := Suc (ticks h),
       calls := calls h @
         [Send \<lparr>m_body = body h, m_id = Str (to_string (sent h + 1)),
                m_properties = [''SendTime'' \<mapsto> Long (clock E (ticks h))],
                m_durable = durable h\<rparr>],
       sent := sent h + 1,
       cout := cout h @
         [to_string (sent h + 1) @ '','' @ show_int64 (clock E (ticks h)) @ newline]\<rparr>"

text \<open>How many accept confirmations a list of events holds.\<close>

definition accepts :: "event list \<Rightarrow> nat" where
  "accepts es = length (filter (\<lambda>e. e = Tracker_accept) es)"

text \<open>
  Invariants of the counters: \<open>sent\<close> counts the messages submitted, and \<open>sent\<close> and
  \<open>received\<close> lie between 0 and \<open>messages\<close>. \<open>progress h h'\<close> holds of a state and a later
  one: the configuration is the same, \<open>sent\<close> and the clock have not gone back.
\<close>

definition sent_ok :: "handler \<Rightarrow> bool" where
  "sent_ok h \<longleftrightarrow> 0 \<le> sint (sent h) \<and> length (sends (calls h)) = nat (sint (sent h))"

definition bounds_ok :: "handler \<Rightarrow> bool" where
  "bounds_ok h \<longleftrightarrow> sint (sent h) \<le> sint (messages h) \<and>
     0 \<le> sint (received h) \<and> sint (received h) \<le> sint (messages h)"

definition progress :: "handler \<Rightarrow> handler \<Rightarrow> bool" where
  "progress h h' \<longleftrightarrow> messages h' = messages h \<and> operation h' = operation h \<and>
     sint (sent h) \<le> sint (sent h') \<and> ticks h \<le> ticks h'"

text \<open>
  The line the sender writes for a message, and the invariant of a sending run: the
  output is the lines of the messages submitted, the \<open>n\<close>th message (from 0) has the id
  \<open>n + 1\<close> in decimal, and every send time is a reading of the clock.
\<close>

definition line_of :: "message \<Rightarrow> string" where
  "line_of m =
     (case (m_id m, m_properties m ''SendTime'') of
        (Str i, Some (Long t)) \<Rightarrow> i @ '','' @ show_int64 t @ newline
      | _ \<Rightarrow> [])"

definition lines_ok :: "env \<Rightarrow> handler \<Rightarrow> bool" where
  "lines_ok E h \<longleftrightarrow>
     cout h = map line_of (sends (calls h)) \<and>
     map m_id (sends (calls h)) =
       map (\<lambda>n. Str (show_int (int n + 1))) [0..<length (sends (calls h))] \<and>
     (\<forall>m\<in>set (sends (calls h)). \<exists>k<ticks h. m_properties m ''SendTime'' = Some (Long (clock E k)))"

text \<open>\<open>quiet h h'\<close>: from \<open>h\<close> to \<open>h'\<close> calls were only added, and none of them sets a timer.\<close>

definition quiet :: "handler \<Rightarrow> handler \<Rightarrow> bool" where
  "quiet h h' \<longleftrightarrow> (\<exists>cs. calls h' = calls h @ cs \<and> (\<forall>t. new_timers t cs = []))"

section \<open>Auxiliary facts\<close>

lemma stop_eq: "stop h = h\<lparr>calls := calls h @ stop_requests h\<rparr>"
  by (simp add: stop_def call_def stop_requests_def split: option.split)

lemma run_append:
  "run E (es @ es') h =
     (case run E es h of Completed h' \<Rightarrow> run E es' h' | Failed x h' \<Rightarrow> Failed x h')"
  by (induction es arbitrary: h) (auto split: sum.splits)

lemma sint_scast_up: "sint (scast (x :: c_int) :: int64) = sint x"
  by (rule sint_up_scast) (simp add: is_up)

lemma sint_millis: "sint (scast (x :: c_int) * 1000 :: int64) = sint x * 1000"
proof -
  have "sint x < 2 ^ 31" using sint_lt [of x] by simp
  moreover have "- (2 ^ 31) \<le> sint x" using sint_ge [of x] by simp
  ultimately have "signed_take_bit 63 (sint x * 1000) = sint x * 1000"
    by (simp add: signed_take_bit_int_eq_self)
  then show ?thesis by (simp add: sint_word_ariths sint_scast_up)
qed

subsection \<open>The send loop\<close>

lemma send_loop_unfold:
  "send_loop E s h =
     (if 0 <s credit s \<and> sent h <s messages h
      then send_loop E (s\<lparr>credit := credit s - 1\<rparr>) (send_one E h) else h)"
  by (subst send_loop.simps)
    (simp add: send_one_def now_def call_def new_message_def Let_def)

lemma send_loop_invariant:
  assumes step: "\<And>h. I h \<Longrightarrow> sent h <s messages h \<Longrightarrow> I (send_one E h)"
    and "I h"
  shows "I (send_loop E s h)"
  using \<open>I h\<close>
proof (induction "nat (sint (messages h) - sint (sent h))" arbitrary: s h rule: less_induct)
  case less
  show ?case
  proof (cases "0 <s credit s \<and> sent h <s messages h")
    case True
    then have lt: "sint (sent h) < sint (messages h)" by (simp add: word_sless_alt)
    have "nat (sint (messages (send_one E h)) - sint (sent (send_one E h)))
        < nat (sint (messages h) - sint (sent h))"
      using lt by (simp add: send_one_def sint_succ)
    moreover have "I (send_one E h)" using step less.prems True by blast
    ultimately have "I (send_loop E (s\<lparr>credit := credit s - 1\<rparr>) (send_one E h))"
      by (rule less.hyps)
    with True show ?thesis by (subst send_loop_unfold) simp
  next
    case False
    with less.prems show ?thesis by (subst send_loop_unfold) auto
  qed
qed

lemma sends_append: "sends (xs @ ys) = sends xs @ sends ys"
  by (induction xs rule: sends.induct) simp_all

lemma sint_succ_max:
  fixes x :: c_int
  assumes "sint x < 2147483647"
  shows "sint (x + 1) = sint x + 1"
proof -
  have "sint x < sint (2147483647 :: c_int)" using assms by simp
  then show ?thesis by (rule sint_succ)
qed

lemma progress_refl: "progress h h"
  by (simp add: progress_def)

lemma progress_trans: "progress a b \<Longrightarrow> progress b c \<Longrightarrow> progress a c"
  by (auto simp: progress_def)

lemma send_one_progress:
  assumes "sent h <s messages h"
  shows "progress h (send_one E h)"
  using assms by (simp add: progress_def send_one_def word_sless_alt sint_succ)

lemma send_one_accepted: "accepted (send_one E h) = accepted h"
  by (simp add: send_one_def)

lemma send_one_received: "received (send_one E h) = received h"
  by (simp add: send_one_def)

lemma send_one_sent_ok:
  assumes "sent_ok h" and "sent h <s messages h"
  shows "sent_ok (send_one E h)"
  using assms
  by (simp add: sent_ok_def send_one_def word_sless_alt sint_succ sends_append nat_add_distrib)

lemma send_one_bounds_ok:
  assumes "bounds_ok h" and "sent h <s messages h"
  shows "bounds_ok (send_one E h)"
  using assms by (simp add: bounds_ok_def send_one_def word_sless_alt sint_succ)

lemma send_loop_facts:
  "progress h (send_loop E s h) \<and> accepted (send_loop E s h) = accepted h \<and>
   received (send_loop E s h) = received h \<and>
   (sent_ok h \<longrightarrow> sent_ok (send_loop E s h)) \<and>
   (bounds_ok h \<longrightarrow> bounds_ok (send_loop E s h))"
proof (rule send_loop_invariant
    [where I = "\<lambda>x. progress h x \<and> accepted x = accepted h \<and> received x = received h \<and>
       (sent_ok h \<longrightarrow> sent_ok x) \<and> (bounds_ok h \<longrightarrow> bounds_ok x)"])
  show "progress h h \<and> accepted h = accepted h \<and> received h = received h \<and>
    (sent_ok h \<longrightarrow> sent_ok h) \<and> (bounds_ok h \<longrightarrow> bounds_ok h)"
    by (simp add: progress_refl)
next
  fix x
  assume I: "progress h x \<and> accepted x = accepted h \<and> received x = received h \<and>
       (sent_ok h \<longrightarrow> sent_ok x) \<and> (bounds_ok h \<longrightarrow> bounds_ok x)"
    and lt: "sent x <s messages x"
  from I lt show "progress h (send_one E x) \<and> accepted (send_one E x) = accepted h \<and>
       received (send_one E x) = received h \<and>
       (sent_ok h \<longrightarrow> sent_ok (send_one E x)) \<and> (bounds_ok h \<longrightarrow> bounds_ok (send_one E x))"
    using progress_trans [OF _ send_one_progress [OF lt]]
    by (auto simp: send_one_accepted send_one_received send_one_sent_ok send_one_bounds_ok)
qed

subsection \<open>One event\<close>

lemma sint_neq:
  fixes x y :: c_int
  shows "x \<noteq> y \<Longrightarrow> sint x \<noteq> sint y"
  using word_eq_iff_signed [where 'a = int, of x y] by simp

lemma stop_fields [simp]:
  "messages (stop h) = messages h" "operation (stop h) = operation h"
  "sent (stop h) = sent h" "received (stop h) = received h"
  "accepted (stop h) = accepted h" "ticks (stop h) = ticks h" "cout (stop h) = cout h"
  "sends (calls (stop h)) = sends (calls h)"
  by (simp_all add: stop_eq stop_requests_def sends_append split: option.split)

lemma on_message_facts:
  assumes "on_message E m h = Inr h'"
  shows "progress h h' \<and> accepted h' = accepted h \<and> operation h = ''receive'' \<and>
    sends (calls h') = sends (calls h) \<and> sent h' = sent h \<and>
    (bounds_ok h \<longrightarrow> bounds_ok h' \<and> sint (received h) \<le> sint (received h'))"
proof (cases "received h = messages h")
  case True
  with assms show ?thesis
    by (auto simp: on_message_def progress_def split: if_splits)
next
  case False
  have inc: "sint (received h + 1) = sint (received h) + 1" if "bounds_ok h"
    using that sint_neq [OF False] sint_succ [of "received h" "messages h"]
    by (simp add: bounds_ok_def)
  from assms False have h': "operation h = ''receive''"
    "h' = (if received h + 1 = messages h then stop else (\<lambda>x. x))
       (h\<lparr>received := received h + 1, ticks := Suc (ticks h),
          cout := cout h @
            [show_scalar E (m_id m) @ '','' @ show_scalar E (get_property m ''SendTime'') @
             '','' @ show_int64 (clock E (ticks h)) @ newline]\<rparr>)"
    by (auto simp: on_message_def now_def Let_def split: if_splits)
  have "bounds_ok h' \<and> sint (received h) \<le> sint (received h')" if "bounds_ok h"
    using that inc [OF that] sint_neq [OF False] by (simp add: h'(2) bounds_ok_def)
  then show ?thesis
    by (simp add: h' progress_def)
qed

lemma on_tracker_accept_facts:
  assumes "on_tracker_accept h = Inr h'"
  shows "progress h h' \<and> accepted h' = accepted h + 1 \<and> received h' = received h \<and>
    sends (calls h') = sends (calls h) \<and> sent h' = sent h \<and> cout h' = cout h"
  using assms by (auto simp: on_tracker_accept_def Let_def progress_def split: if_splits)

lemma on_container_start_facts:
  assumes "on_container_start E c h = Inr h'"
  shows "progress h h' \<and> accepted h' = accepted h \<and> received h' = received h \<and>
    sends (calls h') = sends (calls h) \<and> sent h' = sent h \<and> cout h' = cout h"
  using assms
  by (auto simp: on_container_start_def Let_def progress_def now_def call_def sends_append
      split: if_splits)

lemma other_facts:
  assumes "on_connection_open c h = Inr h' \<or> on_receiver_open r h = Inr h' \<or>
    on_transport_error t h = Inr h' \<or> stop h = h'"
  shows "progress h h' \<and> accepted h' = accepted h \<and> received h' = received h \<and>
    sends (calls h') = sends (calls h) \<and> sent h' = sent h \<and> cout h' = cout h \<and>
    ticks h' = ticks h"
  using assms
  by (auto simp: on_connection_open_def on_receiver_open_def on_transport_error_def
      on_error_def progress_def call_def sends_append split: if_splits)

lemma dispatch_facts:
  assumes "dispatch E e h = Inr h'"
  shows "progress h h' \<and>
    accepted h' = (if e = Tracker_accept then accepted h + 1 else accepted h) \<and>
    (sent_ok h \<longrightarrow> sent_ok h') \<and>
    (bounds_ok h \<longrightarrow> bounds_ok h' \<and> sint (received h) \<le> sint (received h'))"
proof (cases e)
  case (Container_start c)
  with assms on_container_start_facts [of E c h h'] show ?thesis
    by (simp add: sent_ok_def bounds_ok_def progress_def)
next
  case (Connection_open c)
  with assms other_facts [of c h h'] show ?thesis
    by (simp add: sent_ok_def bounds_ok_def progress_def)
next
  case (Receiver_open r)
  with assms other_facts [of _ h h' r] show ?thesis
    by (simp add: sent_ok_def bounds_ok_def progress_def)
next
  case (Sendable s)
  with assms send_loop_facts [of h E s] show ?thesis
    by (auto simp: on_sendable_def bounds_ok_def split: if_splits)
next
  case Tracker_accept
  with assms on_tracker_accept_facts [of h h'] show ?thesis
    by (simp add: sent_ok_def bounds_ok_def progress_def)
next
  case (Message_delivered m)
  with assms on_message_facts [of E m h h'] show ?thesis
    by (simp add: sent_ok_def)
next
  case (Transport_error t)
  with assms other_facts [of _ h h' _ t] show ?thesis
    by (simp add: sent_ok_def bounds_ok_def progress_def)
next
  case (Timer f)
  with assms other_facts [of _ h h'] show ?thesis
    by (cases f) (simp add: sent_ok_def bounds_ok_def progress_def)
qed

lemma lines_ok_ticks:
  assumes "lines_ok E h" and "cout h' = cout h" and "sends (calls h') = sends (calls h)"
    and "ticks h \<le> ticks h'"
  shows "lines_ok E h'"
proof -
  have "\<exists>k<ticks h'. m_properties m ''SendTime'' = Some (Long (clock E k))"
    if "m \<in> set (sends (calls h))" for m
  proof -
    from assms(1) that obtain k where "k < ticks h"
      and "m_properties m ''SendTime'' = Some (Long (clock E k))"
      unfolding lines_ok_def by blast
    with assms(4) show ?thesis by (intro exI [of _ k]) simp
  qed
  with assms(1-3) show ?thesis unfolding lines_ok_def by simp
qed

lemma send_one_lines_ok:
  assumes "lines_ok E h" and "sent_ok h" and "sent h <s messages h"
  shows "lines_ok E (send_one E h)"
proof -
  from assms(3) have "sint (sent h + 1) = sint (sent h) + 1"
    by (simp add: word_sless_alt sint_succ)
  with assms(2) have i: "to_string (sent h + 1) = show_int (int (length (sends (calls h))) + 1)"
    by (simp add: to_string_def sent_ok_def)
  have less: "\<exists>k<Suc (ticks h). P k" if "\<exists>k<ticks h. P k" for P
    using that less_Suc_eq by auto
  from assms(1) show ?thesis
    unfolding lines_ok_def
    by (auto simp add: send_one_def sends_append line_of_def i intro: less)
qed

lemma send_loop_lines_ok:
  assumes "lines_ok E h" and "sent_ok h"
  shows "lines_ok E (send_loop E s h)"
proof -
  have "lines_ok E (send_loop E s h) \<and> sent_ok (send_loop E s h)"
    by (rule send_loop_invariant [where I = "\<lambda>x. lines_ok E x \<and> sent_ok x"])
      (simp_all add: assms send_one_lines_ok send_one_sent_ok)
  then show ?thesis ..
qed

lemma dispatch_lines_ok:
  assumes "dispatch E e h = Inr h'" and "operation h = ''send''"
    and "lines_ok E h" and "sent_ok h"
  shows "lines_ok E h'"
proof (cases e)
  case (Container_start c)
  with assms on_container_start_facts [of E c h h'] show ?thesis
    by (auto simp: progress_def intro: lines_ok_ticks)
next
  case (Connection_open c)
  with assms other_facts [of c h h'] show ?thesis
    by (auto simp: progress_def intro: lines_ok_ticks)
next
  case (Receiver_open r)
  with assms other_facts [of _ h h' r] show ?thesis
    by (auto simp: progress_def intro: lines_ok_ticks)
next
  case (Sendable s)
  with assms send_loop_lines_ok [of E h s] show ?thesis
    by (auto simp: on_sendable_def split: if_splits)
next
  case Tracker_accept
  with assms on_tracker_accept_facts [of h h'] show ?thesis
    by (auto simp: progress_def intro: lines_ok_ticks)
next
  case (Message_delivered m)
  with assms on_message_facts [of E m h h'] show ?thesis
    by simp
next
  case (Transport_error t)
  with assms other_facts [of _ h h' _ t] show ?thesis
    by (auto simp: progress_def intro: lines_ok_ticks)
next
  case (Timer f)
  with assms other_facts [of _ h h'] show ?thesis
    by (cases f) (auto simp: progress_def intro: lines_ok_ticks)
qed

lemma run_invariant:
  assumes step: "\<And>e h h'. I h \<Longrightarrow> dispatch E e h = Inr h' \<Longrightarrow> I h'"
    and "I h"
  shows "I (final (run E es h))"
  using \<open>I h\<close>
proof (induction es arbitrary: h)
  case Nil
  then show ?case by simp
next
  case (Cons e es)
  show ?case
  proof (cases "dispatch E e h")
    case (Inl x)
    with Cons.prems show ?thesis by simp
  next
    case (Inr h')
    with Cons.prems have "I h'" by (blast intro: step)
    then have "I (final (run E es h'))" by (rule Cons.IH)
    with Inr show ?thesis by simp
  qed
qed

subsection \<open>Runs\<close>

lemma accepts_simps [simp]:
  "accepts [] = 0"
  "accepts (e # es) = (if e = Tracker_accept then 1 else 0) + accepts es"
  "accepts (es @ es') = accepts es + accepts es'"
  by (simp_all add: accepts_def)

lemma new_handler_ok:
  "sent_ok (new_handler cm chm op i ho po pa secs msgs bsz cw dur)"
  "lines_ok E (new_handler cm chm op i ho po pa secs msgs bsz cw dur)"
  "0 \<le>s msgs \<Longrightarrow> bounds_ok (new_handler cm chm op i ho po pa secs msgs bsz cw dur)"
  by (simp_all add: new_handler_def sent_ok_def lines_ok_def bounds_ok_def word_sle_eq)

lemma run_sent_ok:
  assumes "sent_ok h"
  shows "sent_ok (final (run E es h)) \<and> progress h (final (run E es h))"
  by (rule run_invariant [where I = "\<lambda>x. sent_ok x \<and> progress h x"])
    (use assms dispatch_facts in \<open>auto simp: progress_refl intro: progress_trans\<close>)

lemma run_bounds_ok:
  assumes "bounds_ok h"
  shows "bounds_ok (final (run E es h)) \<and> sint (received h) \<le> sint (received (final (run E es h)))"
  by (rule run_invariant
      [where I = "\<lambda>x. bounds_ok x \<and> sint (received h) \<le> sint (received x)"])
    (use assms dispatch_facts in \<open>fastforce+\<close>)

lemma run_lines_ok:
  assumes "operation h = ''send''" and "lines_ok E h" and "sent_ok h"
  shows "lines_ok E (final (run E es h))"
proof -
  have "operation (final (run E es h)) = ''send'' \<and> lines_ok E (final (run E es h)) \<and>
      sent_ok (final (run E es h))"
  proof (rule run_invariant
      [where I = "\<lambda>x. operation x = ''send'' \<and> lines_ok E x \<and> sent_ok x"])
    fix e x x'
    assume I: "operation x = ''send'' \<and> lines_ok E x \<and> sent_ok x"
      and d: "dispatch E e x = Inr x'"
    from dispatch_facts [OF d] I have "operation x' = ''send''" "sent_ok x'"
      by (simp_all add: progress_def)
    moreover from dispatch_lines_ok [OF d] I have "lines_ok E x'" by simp
    ultimately show "operation x' = ''send'' \<and> lines_ok E x' \<and> sent_ok x'" by simp
  qed (simp add: assms)
  then show ?thesis by simp
qed

lemma run_accepted:
  assumes "sint (accepted h) + int (accepts es) \<le> 2147483647"
  shows "sint (accepted h) \<le> sint (accepted (final (run E es h))) \<and>
    sint (accepted (final (run E es h))) \<le> sint (accepted h) + int (accepts es)"
  using assms
proof (induction es arbitrary: h)
  case Nil
  then show ?case by simp
next
  case (Cons e es)
  show ?case
  proof (cases "dispatch E e h")
    case (Inl x)
    then show ?thesis by simp
  next
    case (Inr h')
    note acc = dispatch_facts [OF Inr, THEN conjunct2, THEN conjunct1]
    show ?thesis
    proof (cases "e = Tracker_accept")
      case True
      with Cons.prems have "sint (accepted h) < 2147483647" by simp
      then have "sint (accepted h + 1) = sint (accepted h) + 1" by (rule sint_succ_max)
      with acc True have eq: "sint (accepted h') = sint (accepted h) + 1" by simp
      with Cons.prems True have "sint (accepted h') + int (accepts es) \<le> 2147483647" by simp
      from Cons.IH [OF this] eq True Inr show ?thesis by simp
    next
      case False
      with acc have eq: "accepted h' = accepted h" by simp
      with Cons.prems False have "sint (accepted h') + int (accepts es) \<le> 2147483647" by simp
      from Cons.IH [OF this] eq False Inr show ?thesis by simp
    qed
  qed
qed

lemma run_append_final:
  "\<exists>es'. final (run E (es1 @ es2) h) = final (run E es' (final (run E es1 h))) \<and>
     accepts es' \<le> accepts es2"
proof (cases "run E es1 h")
  case (Completed h')
  then show ?thesis by (intro exI [of _ es2]) (simp add: run_append)
next
  case (Failed x h')
  then show ?thesis by (intro exI [of _ "[]"]) (simp add: run_append)
qed

lemmas eval_defs = example_handler_def new_handler_def example_env_def on_sendable_def
  on_tracker_accept_def send_loop_unfold send_one_def stop_def call_def word_sless_alt
  word_sle_eq to_string_def show_int64_def show_int_def show_nat.simps digit_def Let_def

lemma example_send_run:
  "final (run example_env example_events (example_handler ''client'' ''active'' ''send'' 0 2)) =
   (example_handler ''client'' ''active'' ''send'' 0 2)
     \<lparr>sent := 2, accepted := 2, ticks := 2,
      cout := [''1,1000'' @ newline, ''2,1001'' @ newline],
      calls := [Send \<lparr>m_body = [], m_id = Str ''1'',
                      m_properties = [''SendTime'' \<mapsto> Long 1000], m_durable = False\<rparr>,
                Send \<lparr>m_body = [], m_id = Str ''2'',
                      m_properties = [''SendTime'' \<mapsto> Long 1001], m_durable = False\<rparr>]\<rparr>"
  by (simp add: example_events_def eval_defs)

lemma example_split: "example_first @ example_rest = example_events"
  by (simp add: example_first_def example_rest_def example_events_def)

lemma example_first_run:
  "final (run example_env example_first (example_handler ''client'' ''active'' ''send'' 0 2)) =
   (example_handler ''client'' ''active'' ''send'' 0 2)
     \<lparr>sent := 1, accepted := 1, ticks := 1,
      cout := [''1,1000'' @ newline],
      calls := [Send \<lparr>m_body = [], m_id = Str ''1'',
                      m_properties = [''SendTime'' \<mapsto> Long 1000], m_durable = False\<rparr>]\<rparr>"
  by (simp add: example_first_def eval_defs)

subsection \<open>Timers\<close>

lemma new_timers_append: "new_timers t (xs @ ys) = new_timers t xs @ new_timers t ys"
  by (induction t xs rule: new_timers.induct) simp_all

lemma quiet_refl: "quiet h h"
  by (simp add: quiet_def)

lemma quiet_trans: "quiet a b \<Longrightarrow> quiet b c \<Longrightarrow> quiet a c"
  by (auto simp: quiet_def new_timers_append)

lemma quiet_calls: "calls h' = calls h \<Longrightarrow> quiet h h'"
  by (simp add: quiet_def)

lemma quiet_stop: "quiet h (stop h)"
  by (auto simp: quiet_def stop_eq stop_requests_def split: option.split)

lemma quiet_send_one: "quiet h (send_one E h)"
  by (simp add: quiet_def send_one_def)

lemma quiet_send_loop: "quiet h (send_loop E s h)"
  by (rule send_loop_invariant [where I = "quiet h"])
    (auto intro: quiet_refl quiet_trans quiet_send_one)

lemma quiet_dispatch:
  assumes "dispatch E e h = Inr h'" and "\<And>c. e \<noteq> Container_start c"
  shows "quiet h h'"
proof (cases e)
  case (Container_start c)
  with assms(2) [of c] show ?thesis by simp
next
  case (Connection_open c)
  with assms(1) show ?thesis
    by (auto simp: on_connection_open_def call_def quiet_def split: if_splits)
next
  case (Receiver_open r)
  with assms(1) show ?thesis
    by (auto simp: on_receiver_open_def call_def quiet_def)
next
  case (Sendable s)
  with assms(1) show ?thesis
    by (auto simp: on_sendable_def quiet_send_loop split: if_splits)
next
  case Tracker_accept
  with assms(1) show ?thesis
    by (auto simp: on_tracker_accept_def Let_def quiet_def stop_eq stop_requests_def
        split: if_splits option.split)
next
  case (Message_delivered m)
  with assms(1) show ?thesis
    by (auto simp: on_message_def Let_def now_def quiet_def stop_eq stop_requests_def
        split: if_splits option.split)
next
  case (Transport_error t)
  with assms(1) show ?thesis
    by (auto simp: on_transport_error_def on_error_def quiet_refl split: if_splits)
next
  case (Timer f)
  with assms(1) show ?thesis by (cases f) (auto simp: quiet_stop)
qed

lemma quiet_run:
  assumes "run E es h = Completed h'" and "\<And>c. Container_start c \<notin> set es"
  shows "quiet h h'"
  using assms
proof (induction es arbitrary: h)
  case Nil
  then show ?case by (simp add: quiet_refl)
next
  case (Cons e es)
  from Cons.prems(1) obtain g where g: "dispatch E e h = Inr g" "run E es g = Completed h'"
    by (auto split: sum.splits)
  from Cons.prems(2) have "\<And>c. e \<noteq> Container_start c" by auto
  with g(1) have "quiet h g" by (rule quiet_dispatch)
  moreover from g(2) Cons.prems(2) have "quiet g h'" by (intro Cons.IH) auto
  ultimately show ?case by (rule quiet_trans)
qed

lemma quiet_new_timers:
  assumes "quiet h h'"
  shows "new_timers t (drop (length (calls h)) (calls h')) = []"
  using assms by (auto simp: quiet_def)

lemma run_append_Completed:
  assumes "run E (es @ es') h = Completed hf"
  obtains g where "run E es h = Completed g" and "run E es' g = Completed hf"
  using assms by (cases "run E es h") (simp_all add: run_append)

lemma timers_fire:
  assumes "\<forall>(t, e)\<in>set tes. after_start e"
    and "run E (timeline E t_end tes P h) h = Completed hf"
    and "\<forall>(d, f)\<in>set P. d \<le> t_end"
  shows "length (filter is_timer (timeline E t_end tes P h)) = length P"
  using assms
proof (induction tes arbitrary: P h)
  case Nil
  have "filter is_timer (map (\<lambda>(d, f). Timer f) xs) = map (\<lambda>(d, f). Timer f) xs" for xs :: "timer list"
    by (induction xs) auto
  moreover from Nil.prems(3) have "due t_end P = P" by (auto simp: due_def)
  ultimately show ?case by (simp add: timeline.simps)
next
  case (Cons te tes)
  obtain t e where te: "te = (t, e)" by (cases te)
  let ?evs = "map (\<lambda>(d, f). Timer f) (due t P) @ [e]"
  from Cons.prems(1) te have e: "after_start e" by simp
  have timers: "filter is_timer (map (\<lambda>(d, f). Timer f) xs) = map (\<lambda>(d, f). Timer f) xs"
    for xs :: "timer list"
    by (induction xs) auto
  from e have net: "\<not> is_timer e" by (cases e) simp_all
  have nostart: "Container_start c \<notin> set ?evs" for c
    using e by (cases e) auto
  show ?case
  proof (cases "run E ?evs h")
    case (Failed x g)
    then have "timeline E t_end (te # tes) P h = ?evs" by (simp add: te timeline.simps)
    with Cons.prems(2) Failed show ?thesis by simp
  next
    case (Completed h')
    let ?P = "not_due t P @ new_timers t (drop (length (calls h)) (calls h'))"
    from Completed have tl: "timeline E t_end (te # tes) P h = ?evs @ timeline E t_end tes ?P h'"
      by (simp add: te timeline.simps)
    from Completed nostart have "quiet h h'" by (rule quiet_run)
    then have P: "?P = not_due t P" by (simp add: quiet_new_timers)
    from Cons.prems(2) have "run E (?evs @ timeline E t_end tes ?P h') h = Completed hf"
      by (simp only: tl)
    then obtain g where "run E ?evs h = Completed g"
      and "run E (timeline E t_end tes ?P h') g = Completed hf"
      by (rule run_append_Completed)
    with Completed have run': "run E (timeline E t_end tes ?P h') h' = Completed hf"
      by simp
    from Cons.prems(3) have "\<forall>(d, f)\<in>set ?P. d \<le> t_end"
      unfolding P by (auto simp: not_due_def)
    with Cons.prems(1) run' have "length (filter is_timer (timeline E t_end tes ?P h')) = length ?P"
      by (intro Cons.IH) auto
    moreover have "length (due t P) + length (not_due t P) = length P"
      unfolding due_def not_due_def
      using sum_length_filter_compl [of "\<lambda>(d, f). d \<le> t" P] by (simp add: case_prod_unfold)
    ultimately show ?thesis
      by (simp add: tl timers net P)
  qed
qed

lemma only_stop_timers:
  assumes "length (filter is_timer es) = n"
  shows "filter is_timer es = replicate n (Timer Cb_stop)"
proof -
  have "y = Timer Cb_stop" if "y \<in> set (filter is_timer es)" for y
  proof -
    from that have "is_timer y" by simp
    then obtain f where "y = Timer f" by (cases y) simp_all
    then show ?thesis by (cases f) simp
  qed
  then have "replicate (length (filter is_timer es)) (Timer Cb_stop) = filter is_timer es"
    by (intro replicate_length_same) blast
  with assms show ?thesis by simp
qed

lemma timers_of_start:
  assumes "connection_mode h = ''client'' \<or> connection_mode h = ''server''"
    and "0 \<le>s body_size h"
  shows "\<exists>h'. on_container_start E c h = Inr h' \<and>
     calls h' = calls h @
       [if connection_mode h = ''client''
        then Connect (host h @ '':'' @ port h) ''ANONYMOUS''
        else Listen (host h @ '':'' @ port h) ''ANONYMOUS''] @
       (if 0 <s seconds h then [Schedule (scast (seconds h) * 1000) Cb_stop] else [])"
proof -
  from assms(2) have "\<not> body_size h <s 0"
    by (simp add: word_sle_eq word_sless_alt)
  with assms(1) show ?thesis
    by (auto simp add: on_container_start_def now_def call_def Let_def)
qed

lemma example_stall_timeline:
  "timeline example_env 1000
     ((0, Container_start \<lparr>new_connection = 4, new_listener = 5\<rparr>) # example_stall) []
     (example_handler ''client'' ''active'' ''send'' 1 1000000) =
   [Container_start \<lparr>new_connection = 4, new_listener = 5\<rparr>, Connection_open 4,
    Sendable \<lparr>credit = 2\<rparr>, Timer Cb_stop]"
  by (simp add: example_stall_def timeline.simps eval_defs on_container_start_def on_connection_open_def
      now_def due_def not_due_def new_message_def)

lemma example_stall_run:
  "calls (final (run example_env
     [Container_start \<lparr>new_connection = 4, new_listener = 5\<rparr>, Connection_open 4,
      Sendable \<lparr>credit = 2\<rparr>, Timer Cb_stop]
     (example_handler ''client'' ''active'' ''send'' 1 1000000))) =
   [Connect ''localhost:5672'' ''ANONYMOUS'', Schedule 1000 Cb_stop, Open_sender 4 ''q0'',
    Send \<lparr>m_body = replicate 10 CHR ''x'', m_id = Str ''1'',
          m_properties = [''SendTime'' \<mapsto> Long 1001], m_durable = False\<rparr>,
    Send \<lparr>m_body = replicate 10 CHR ''x'', m_id = Str ''2'',
          m_properties = [''SendTime'' \<mapsto> Long 1002], m_durable = False\<rparr>,
    Conn_close 4]"
  by (simp add: eval_defs on_container_start_def on_connection_open_def
      now_def new_message_def)

section \<open>Receiving\<close>

text \<open>
  C4. A delivery that arrives while \<open>received\<close> is below \<open>messages\<close> (the operation being
  \<open>receive\<close>, which the callback asserts) increments \<open>received\<close>, without overflow, reads
  the clock once, writes the line made of the message's id, its \<open>SendTime\<close> property and
  the reading, and runs \<open>stop\<close> exactly when the incremented counter equals \<open>messages\<close>.
\<close>

theorem on_message_counts_reports_and_stops:
  assumes "operation h = ''receive''" and "received h <s messages h"
  shows "on_message E m h =
     Inr (let h' = h\<lparr>received := received h + 1, ticks := Suc (ticks h),
                     cout := cout h @
                       [show_scalar E (m_id m) @ '','' @
                        show_scalar E (get_property m ''SendTime'') @ '','' @
                        show_int64 (clock E (ticks h)) @ newline]\<rparr>
          in if received h + 1 = messages h then stop h' else h')
     \<and> sint (received h + 1) = sint (received h) + 1"
proof -
  from assms(2) have lt: "sint (received h) < sint (messages h)"
    by (simp add: word_sless_alt)
  then have "received h \<noteq> messages h" by auto
  with assms(1) have "on_message E m h =
     Inr (let h' = h\<lparr>received := received h + 1, ticks := Suc (ticks h),
                     cout := cout h @
                       [show_scalar E (m_id m) @ '','' @
                        show_scalar E (get_property m ''SendTime'') @ '','' @
                        show_int64 (clock E (ticks h)) @ newline]\<rparr>
          in if received h + 1 = messages h then stop h' else h')"
    by (simp add: on_message_def now_def Let_def)
  with lt show ?thesis by (simp add: sint_succ)
qed

theorem on_message_counts_reports_and_stops_witness:
  "on_message example_env
     ((new_message ''xx'')\<lparr>m_id := Str ''1'', m_properties := [''SendTime'' \<mapsto> Long 990]\<rparr>)
     (example_handler ''client'' ''active'' ''receive'' 0 1) =
   Inr ((example_handler ''client'' ''active'' ''receive'' 0 1)
          \<lparr>received := 1, ticks := 1, cout := [''1,990,1000'' @ newline]\<rparr>)"
  using on_message_counts_reports_and_stops
    [of "example_handler ''client'' ''active'' ''receive'' 0 1" example_env
      "(new_message ''xx'')\<lparr>m_id := Str ''1'', m_properties := [''SendTime'' \<mapsto> Long 990]\<rparr>"]
  by (simp add: example_handler_def new_handler_def example_env_def get_property_def
      new_message_def show_int64_def show_int_def show_nat.simps digit_def stop_eq
      stop_requests_def word_sless_alt)

text \<open>
  C5. A delivery that arrives when \<open>received\<close> equals \<open>messages\<close> returns at once: no
  field changes, nothing is written and no call is made.
\<close>

theorem on_message_ignores_after_completion:
  "operation h = ''receive'' \<Longrightarrow> received h = messages h \<Longrightarrow> on_message E m h = Inr h"
  by (simp add: on_message_def)

theorem on_message_ignores_after_completion_witness:
  "on_message example_env (new_message ''xx'')
     ((example_handler ''client'' ''active'' ''receive'' 0 3)\<lparr>received := 3\<rparr>)
   = Inr ((example_handler ''client'' ''active'' ''receive'' 0 3)\<lparr>received := 3\<rparr>)"
  using on_message_ignores_after_completion
    [of "(example_handler ''client'' ''active'' ''receive'' 0 3)\<lparr>received := 3\<rparr>"
      example_env "new_message ''xx''"]
  by (simp add: example_handler_def new_handler_def)

section \<open>Accept confirmations\<close>

text \<open>
  C6. Every accept confirmation adds one to \<open>accepted\<close>; the requests of \<open>stop\<close> are made
  exactly when the counter then equals \<open>messages\<close>, and nothing else changes.
\<close>

theorem on_tracker_accept_counts_and_stops:
  "on_tracker_accept h =
     Inr (if accepted h + 1 = messages h
          then stop (h\<lparr>accepted := accepted h + 1\<rparr>)
          else h\<lparr>accepted := accepted h + 1\<rparr>) \<and>
   stop (h\<lparr>accepted := accepted h + 1\<rparr>) =
     h\<lparr>accepted := accepted h + 1, calls := calls h @ stop_requests h\<rparr>"
  by (simp add: on_tracker_accept_def Let_def stop_eq stop_requests_def)

section \<open>Opening the connection\<close>

text \<open>
  C10. The operation is checked only in the branch for the channel mode \<open>active\<close>. For
  any other channel mode the callback stores the connection and opens it, whatever the
  operation is; it throws exactly when the channel mode is \<open>active\<close> and the operation
  is neither \<open>send\<close> nor \<open>receive\<close>.
\<close>

theorem on_connection_open_checks_operation_only_if_active:
  "(channel_mode h \<noteq> ''active'' \<longrightarrow>
      on_connection_open c h = Inr (h\<lparr>connection := Some c, calls := calls h @ [Conn_open c]\<rparr>)) \<and>
   ((\<exists>e. on_connection_open c h = Inl e) \<longleftrightarrow>
      channel_mode h = ''active'' \<and> operation h \<noteq> ''send'' \<and> operation h \<noteq> ''receive'')"
  by (simp add: on_connection_open_def call_def)

theorem on_connection_open_checks_operation_only_if_active_witness:
  "on_connection_open 7 (example_handler ''server'' ''passive'' ''bogus'' 0 3) =
     Inr ((example_handler ''server'' ''passive'' ''bogus'' 0 3)
            \<lparr>connection := Some 7, calls := [Conn_open 7]\<rparr>)"
  using on_connection_open_checks_operation_only_if_active
    [of "example_handler ''server'' ''passive'' ''bogus'' 0 3" 7]
  by (simp add: example_handler_def new_handler_def)

section \<open>Startup\<close>

text \<open>
  C9. With a connection mode of \<open>client\<close> or \<open>server\<close> and a body size that is not
  negative, \<open>on_container_start\<close> returns, and after the connect or listen call it
  schedules one timer, \<open>seconds\<close> times 1000 milliseconds ahead with \<open>stop\<close> as its action,
  when \<open>seconds\<close> is positive, and none otherwise. Take a run of the container that starts
  with this callback at the time \<open>t0\<close>, goes on with any events from outside and is
  followed, no callback failing, until a time \<open>t_end\<close> at or after the offset. Among the
  events dispatched the timer fires exactly once when \<open>seconds\<close> is positive and never
  otherwise; where it fires \<open>stop\<close> runs, in the state the handler is in then, whatever
  its counters are.
\<close>

theorem on_container_start_schedules_stop:
  assumes "connection_mode h = ''client'' \<or> connection_mode h = ''server''"
    and "0 \<le>s body_size h"
  shows "\<exists>h'. on_container_start E c h = Inr h' \<and>
     calls h' = calls h @
       [if connection_mode h = ''client''
        then Connect (host h @ '':'' @ port h) ''ANONYMOUS''
        else Listen (host h @ '':'' @ port h) ''ANONYMOUS''] @
       (if 0 <s seconds h then [Schedule (scast (seconds h) * 1000) Cb_stop] else []) \<and>
     sint (scast (seconds h) * 1000 :: int64) = sint (seconds h) * 1000 \<and>
     ((\<forall>(t, e)\<in>set tes. after_start e) \<longrightarrow>
      (0 <s seconds h \<longrightarrow> t0 + sint (seconds h) * 1000 \<le> t_end) \<longrightarrow>
      run E (timeline E t_end ((t0, Container_start c) # tes) [] h) h = Completed hf \<longrightarrow>
        filter is_timer (timeline E t_end ((t0, Container_start c) # tes) [] h) =
          (if 0 <s seconds h then [Timer Cb_stop] else []) \<and>
        (0 <s seconds h \<longrightarrow>
          (\<exists>es1 es2 g. timeline E t_end ((t0, Container_start c) # tes) [] h =
              es1 @ Timer Cb_stop # es2 \<and>
            run E es1 h = Completed g \<and>
            run E (es1 @ [Timer Cb_stop]) h = Completed (stop g))))"
proof -
  from assms obtain h' where start: "on_container_start E c h = Inr h'"
    and calls: "calls h' = calls h @
       [if connection_mode h = ''client''
        then Connect (host h @ '':'' @ port h) ''ANONYMOUS''
        else Listen (host h @ '':'' @ port h) ''ANONYMOUS''] @
       (if 0 <s seconds h then [Schedule (scast (seconds h) * 1000) Cb_stop] else [])"
    using timers_of_start by blast
  let ?tl = "timeline E t_end ((t0, Container_start c) # tes) [] h"
  let ?P = "if 0 <s seconds h then [(t0 + sint (seconds h) * 1000, Cb_stop)] else []"
  have tl: "?tl = Container_start c # timeline E t_end tes ?P h'"
    using start calls by (simp add: timeline.simps due_def not_due_def sint_millis)
  have fired: "filter is_timer ?tl = (if 0 <s seconds h then [Timer Cb_stop] else []) \<and>
        (0 <s seconds h \<longrightarrow>
          (\<exists>es1 es2 g. ?tl = es1 @ Timer Cb_stop # es2 \<and> run E es1 h = Completed g \<and>
            run E (es1 @ [Timer Cb_stop]) h = Completed (stop g)))"
    if ext: "\<forall>(t, e)\<in>set tes. after_start e"
      and horizon: "0 <s seconds h \<longrightarrow> t0 + sint (seconds h) * 1000 \<le> t_end"
      and fin: "run E ?tl h = Completed hf"
  proof -
    from fin have "run E (Container_start c # timeline E t_end tes ?P h') h = Completed hf"
      unfolding tl .
    with start have rest: "run E (timeline E t_end tes ?P h') h' = Completed hf"
      by simp
    from horizon have "\<forall>(d, f)\<in>set ?P. d \<le> t_end" by simp
    with ext rest have "length (filter is_timer (timeline E t_end tes ?P h')) = length ?P"
      by (rule timers_fire)
    then have "filter is_timer (timeline E t_end tes ?P h') = replicate (length ?P) (Timer Cb_stop)"
      by (rule only_stop_timers)
    then have count: "filter is_timer ?tl = (if 0 <s seconds h then [Timer Cb_stop] else [])"
      by (simp add: tl)
    have "\<exists>es1 es2 g. ?tl = es1 @ Timer Cb_stop # es2 \<and> run E es1 h = Completed g \<and>
            run E (es1 @ [Timer Cb_stop]) h = Completed (stop g)"
      if "0 <s seconds h"
    proof -
      from that count have "Timer Cb_stop \<in> set (filter is_timer ?tl)" by simp
      then have "Timer Cb_stop \<in> set ?tl" by simp
      then obtain es1 es2 where split: "?tl = es1 @ Timer Cb_stop # es2"
        by (auto dest: split_list)
      with fin have "run E (es1 @ Timer Cb_stop # es2) h = Completed hf" by simp
      then obtain g where g: "run E es1 h = Completed g"
        by (rule run_append_Completed)
      then have "run E (es1 @ [Timer Cb_stop]) h = Completed (stop g)"
        by (simp add: run_append)
      with split g show ?thesis by blast
    qed
    with count show ?thesis by blast
  qed
  from start calls fired show ?thesis
    by (intro exI [of _ h']) (simp add: sint_millis)
qed

theorem on_container_start_schedules_stop_witness:
  "filter is_timer (timeline example_env 1000
     ((0, Container_start \<lparr>new_connection = 4, new_listener = 5\<rparr>) # example_stall) []
     (example_handler ''client'' ''active'' ''send'' 1 1000000)) = [Timer Cb_stop] \<and>
   timeline example_env 1000
     ((0, Container_start \<lparr>new_connection = 4, new_listener = 5\<rparr>) # example_stall) []
     (example_handler ''client'' ''active'' ''send'' 1 1000000) =
   [Container_start \<lparr>new_connection = 4, new_listener = 5\<rparr>, Connection_open 4,
    Sendable \<lparr>credit = 2\<rparr>, Timer Cb_stop] \<and>
   calls (final (run example_env (timeline example_env 1000
     ((0, Container_start \<lparr>new_connection = 4, new_listener = 5\<rparr>) # example_stall) []
     (example_handler ''client'' ''active'' ''send'' 1 1000000))
     (example_handler ''client'' ''active'' ''send'' 1 1000000))) =
   [Connect ''localhost:5672'' ''ANONYMOUS'', Schedule 1000 Cb_stop, Open_sender 4 ''q0'',
    Send \<lparr>m_body = replicate 10 CHR ''x'', m_id = Str ''1'',
          m_properties = [''SendTime'' \<mapsto> Long 1001], m_durable = False\<rparr>,
    Send \<lparr>m_body = replicate 10 CHR ''x'', m_id = Str ''2'',
          m_properties = [''SendTime'' \<mapsto> Long 1002], m_durable = False\<rparr>,
    Conn_close 4]"
proof -
  let ?h = "example_handler ''client'' ''active'' ''send'' 1 1000000"
  let ?c = "\<lparr>new_connection = 4, new_listener = 5\<rparr>"
  let ?tl = "timeline example_env 1000 ((0, Container_start ?c) # example_stall) [] ?h"
  have mode: "connection_mode ?h = ''client'' \<or> connection_mode ?h = ''server''"
    and size: "0 \<le>s body_size ?h" and pos: "0 <s seconds ?h"
    by (simp_all add: example_handler_def new_handler_def word_sle_eq word_sless_alt)
  have ext: "\<forall>(t, e)\<in>set example_stall. after_start e"
    by (simp add: example_stall_def)
  have horizon: "0 <s seconds ?h \<longrightarrow> 0 + sint (seconds ?h) * 1000 \<le> 1000"
    by (simp add: example_handler_def new_handler_def)
  have fin: "run example_env ?tl ?h = Completed (final (run example_env ?tl ?h))"
    unfolding example_stall_timeline
    by (simp add: eval_defs on_container_start_def on_connection_open_def now_def)
  from on_container_start_schedules_stop [OF mode size, of example_env ?c example_stall 0 1000
      "final (run example_env ?tl ?h)"] ext horizon fin pos
  have "filter is_timer ?tl = [Timer Cb_stop]" by auto
  moreover have "calls (final (run example_env ?tl ?h)) =
   [Connect ''localhost:5672'' ''ANONYMOUS'', Schedule 1000 Cb_stop, Open_sender 4 ''q0'',
    Send \<lparr>m_body = replicate 10 CHR ''x'', m_id = Str ''1'',
          m_properties = [''SendTime'' \<mapsto> Long 1001], m_durable = False\<rparr>,
    Send \<lparr>m_body = replicate 10 CHR ''x'', m_id = Str ''2'',
          m_properties = [''SendTime'' \<mapsto> Long 1002], m_durable = False\<rparr>,
    Conn_close 4]"
    unfolding example_stall_timeline by (rule example_stall_run)
  ultimately show ?thesis
    using example_stall_timeline by simp
qed

section \<open>Termination routine\<close>

text \<open>
  C7, as stated: calling \<open>stop\<close> twice has the effect of calling it once. It has not: with
  a connection held, the second call asks for the close of the connection again.
\<close>

theorem stop_twice_closes_twice:
  "stop (stop ((example_handler ''client'' ''active'' ''send'' 0 3)\<lparr>connection := Some 0\<rparr>))
     \<noteq> stop ((example_handler ''client'' ''active'' ''send'' 0 3)\<lparr>connection := Some 0\<rparr>) \<and>
   calls (stop (stop ((example_handler ''client'' ''active'' ''send'' 0 3)\<lparr>connection := Some 0\<rparr>)))
     = [Conn_close 0, Conn_close 0] \<and>
   calls (stop ((example_handler ''client'' ''active'' ''send'' 0 3)\<lparr>connection := Some 0\<rparr>))
     = [Conn_close 0]"
  by (simp add: stop_eq stop_requests_def example_handler_def new_handler_def)

text \<open>
  C7, amended. \<open>stop\<close> changes no field of the handler. Each call asks for the close of
  the connection exactly if a connection is held and for the stop of the listener exactly
  if the connection mode is \<open>server\<close>, so a second call repeats the requests of the
  first and adds no request of another kind.
\<close>

theorem stop_repeats_requests:
  "stop h = h\<lparr>calls := calls h @ stop_requests h\<rparr> \<and>
   stop (stop h) = h\<lparr>calls := calls h @ stop_requests h @ stop_requests h\<rparr> \<and>
   set (calls (stop (stop h))) = set (calls (stop h)) \<and>
   (Conn_close c \<in> set (stop_requests h) \<longleftrightarrow> connection h = Some c) \<and>
   (Lsn_stop l \<in> set (stop_requests h) \<longleftrightarrow> connection_mode h = ''server'' \<and> l = listener h) \<and>
   length (stop_requests h) \<le> 2"
  by (auto simp add: stop_eq stop_requests_def split: option.splits)

section \<open>Transport errors\<close>

text \<open>
  C8. In server mode a transport error changes nothing and the run goes on with the next
  event. In client mode it leaves the callback as an exception; \<open>main\<close> then writes one
  line to standard error, the prefix followed by the text of the error, and returns 1.
\<close>

theorem on_transport_error_by_mode:
  "(connection_mode h = ''server'' \<longrightarrow>
      on_transport_error t h = Inr h \<and>
      run E (Transport_error t # es') h = run E es' h) \<and>
   (connection_mode h = ''client'' \<longrightarrow>
      on_transport_error t h = Inl (Proton_error (t_error t)) \<and>
      (run E es h0 = Completed h \<longrightarrow>
        main_run E (es @ Transport_error t # es') h0 =
          Exit (cout h) [''quiver-arrow: error: '' @ t_error t @ newline] 1))"
  by (simp add: on_transport_error_def on_error_def main_run_def run_append eprint_def)

theorem on_transport_error_by_mode_witness:
  "run example_env [Transport_error \<lparr>t_error = ''refused''\<rparr>]
     (example_handler ''server'' ''passive'' ''receive'' 0 3) =
     Completed (example_handler ''server'' ''passive'' ''receive'' 0 3) \<and>
   main_run example_env [Transport_error \<lparr>t_error = ''refused''\<rparr>]
     (example_handler ''client'' ''active'' ''send'' 0 3) =
     Exit [] [''quiver-arrow: error: refused'' @ newline] 1"
  using
    on_transport_error_by_mode
      [of "example_handler ''server'' ''passive'' ''receive'' 0 3" "\<lparr>t_error = ''refused''\<rparr>"
        example_env "[]"]
    on_transport_error_by_mode
      [of "example_handler ''client'' ''active'' ''send'' 0 3" "\<lparr>t_error = ''refused''\<rparr>"
        example_env "[]" "[]" "example_handler ''client'' ''active'' ''send'' 0 3"]
  by (simp add: example_handler_def new_handler_def)

section \<open>Sending\<close>

text \<open>
  C1. Take a handler as \<open>main\<close> sets it up, with a message count that is not negative,
  and any list of events. In the state the run ends in, the messages submitted are as
  many as \<open>sent\<close> says and at most \<open>messages\<close>; when the operation is \<open>send\<close> the output
  has one line per message submitted. Once \<open>sent\<close> equals \<open>messages\<close>, a further sendable
  event leaves the handler as it is, whatever credit the sender has.
\<close>

theorem sends_never_exceed_messages:
  assumes "0 \<le>s msgs"
    and "h = final (run E es (new_handler cm chm op i ho po pa secs msgs bsz cw dur))"
  shows "length (sends (calls h)) = nat (sint (sent h)) \<and>
    length (sends (calls h)) \<le> nat (sint msgs) \<and>
    (op = ''send'' \<longrightarrow> length (cout h) = length (sends (calls h))) \<and>
    (sent h = msgs \<longrightarrow>
      on_sendable E s h = (if op = ''send'' then Inr h else Inl Assertion_failed))"
proof -
  let ?h0 = "new_handler cm chm op i ho po pa secs msgs bsz cw dur"
  have cfg: "messages ?h0 = msgs" "operation ?h0 = op" by (simp_all add: new_handler_def)
  have "sent_ok h \<and> progress ?h0 h"
    unfolding assms(2) by (rule run_sent_ok) (rule new_handler_ok)
  then have s: "sent_ok h" and m: "messages h = msgs" and o: "operation h = op"
    by (simp_all add: progress_def cfg)
  have "bounds_ok h \<and> sint (received ?h0) \<le> sint (received h)"
    unfolding assms(2) by (rule run_bounds_ok) (rule new_handler_ok(3) [OF assms(1)])
  then have b: "bounds_ok h" ..
  have l: "lines_ok E h" if "op = ''send''"
  proof -
    from that have "operation ?h0 = ''send''" by (simp add: new_handler_def)
    then show ?thesis
      unfolding assms(2) by (rule run_lines_ok) (rule new_handler_ok)+
  qed
  have "send_loop E s h = h" if "sent h = msgs"
    using that m by (subst send_loop_unfold) (simp add: word_sless_alt)
  with s b m o l show ?thesis
    by (auto simp: sent_ok_def bounds_ok_def lines_ok_def on_sendable_def)
qed

theorem sends_never_exceed_messages_witness:
  "length (sends (calls (final (run example_env example_events
      (example_handler ''client'' ''active'' ''send'' 0 2))))) \<le> nat (sint (2 :: c_int)) \<and>
   length (sends (calls (final (run example_env example_events
      (example_handler ''client'' ''active'' ''send'' 0 2))))) = 2 \<and>
   on_sendable example_env \<lparr>credit = 7\<rparr> (final (run example_env example_events
      (example_handler ''client'' ''active'' ''send'' 0 2))) =
   Inr (final (run example_env example_events
      (example_handler ''client'' ''active'' ''send'' 0 2)))"
proof -
  have sent2: "sent (final (run example_env example_events
      (example_handler ''client'' ''active'' ''send'' 0 2))) = 2"
    by (simp add: example_send_run)
  have "(0 :: c_int) \<le>s 2" by (simp add: word_sle_eq)
  from sends_never_exceed_messages [OF this refl, of example_env example_events
      "''client''" "''active''" "''send''" "''arrow''" "''localhost''" "''5672''" "''q0''" 0 10 5
      False "\<lparr>credit = 7\<rparr>", folded example_handler_def] sent2
  show ?thesis by simp
qed

text \<open>
  C2. In a run with the operation \<open>send\<close>, the output has one line per message
  submitted; the \<open>n\<close>th line, counted from 0, is the decimal of \<open>n + 1\<close>, a comma, and a
  reading of the clock, and the \<open>n\<close>th message carries that id as a string and that
  reading as its \<open>SendTime\<close>.
\<close>

theorem sent_lines_are_numbered:
  assumes "h = final (run E es (new_handler cm chm ''send'' i ho po pa secs msgs bsz cw dur))"
  shows "length (cout h) = length (sends (calls h)) \<and>
    (\<forall>n<length (cout h). \<exists>k<ticks h.
        cout h ! n = show_int (int n + 1) @ '','' @ show_int64 (clock E k) @ newline \<and>
        m_id (sends (calls h) ! n) = Str (show_int (int n + 1)) \<and>
        m_properties (sends (calls h) ! n) ''SendTime'' = Some (Long (clock E k)))"
proof -
  let ?h0 = "new_handler cm chm ''send'' i ho po pa secs msgs bsz cw dur"
  let ?ms = "sends (calls h)"
  have "operation ?h0 = ''send''" by (simp add: new_handler_def)
  then have l: "lines_ok E h"
    using run_lines_ok [of ?h0 E es] new_handler_ok(1,2) by (simp add: assms)
  then have len: "length (cout h) = length ?ms" by (simp add: lines_ok_def)
  have "\<exists>k<ticks h.
        cout h ! n = show_int (int n + 1) @ '','' @ show_int64 (clock E k) @ newline \<and>
        m_id (?ms ! n) = Str (show_int (int n + 1)) \<and>
        m_properties (?ms ! n) ''SendTime'' = Some (Long (clock E k))"
    if n: "n < length ?ms" for n
  proof -
    from l n obtain k where k: "k < ticks h"
      "m_properties (?ms ! n) ''SendTime'' = Some (Long (clock E k))"
      unfolding lines_ok_def using nth_mem by blast
    from l have "map m_id ?ms ! n = map (\<lambda>n. Str (show_int (int n + 1))) [0..<length ?ms] ! n"
      by (simp add: lines_ok_def)
    with n have id: "m_id (?ms ! n) = Str (show_int (int n + 1))" by simp
    from l n have "cout h ! n = line_of (?ms ! n)" by (simp add: lines_ok_def)
    with id k(2) have "cout h ! n = show_int (int n + 1) @ '','' @ show_int64 (clock E k) @ newline"
      by (simp add: line_of_def)
    with k id show ?thesis by blast
  qed
  with len show ?thesis by simp
qed

theorem sent_lines_are_numbered_witness:
  "cout (final (run example_env example_events
      (example_handler ''client'' ''active'' ''send'' 0 2))) =
     [''1,1000'' @ newline, ''2,1001'' @ newline] \<and>
   (\<exists>k<ticks (final (run example_env example_events
        (example_handler ''client'' ''active'' ''send'' 0 2))).
      cout (final (run example_env example_events
        (example_handler ''client'' ''active'' ''send'' 0 2))) ! 1 =
      show_int (int 1 + 1) @ '','' @ show_int64 (clock example_env k) @ newline)"
proof -
  have len: "1 < length (cout (final (run example_env example_events
      (example_handler ''client'' ''active'' ''send'' 0 2))))"
    and out: "cout (final (run example_env example_events
      (example_handler ''client'' ''active'' ''send'' 0 2))) =
     [''1,1000'' @ newline, ''2,1001'' @ newline]"
    by (simp_all add: example_send_run)
  from sent_lines_are_numbered [OF refl, of example_env example_events
      "''client''" "''active''" "''arrow''" "''localhost''" "''5672''" "''q0''" 0 2 10 5
      False, folded example_handler_def, THEN conjunct2, THEN spec, of 1] len
  have "\<exists>k<ticks (final (run example_env example_events
        (example_handler ''client'' ''active'' ''send'' 0 2))).
      cout (final (run example_env example_events
        (example_handler ''client'' ''active'' ''send'' 0 2))) ! 1 =
      show_int (int 1 + 1) @ '','' @ show_int64 (clock example_env k) @ newline"
    by blast
  with out show ?thesis by blast
qed

section \<open>The counters\<close>

text \<open>
  C3. Take a handler as \<open>main\<close> sets it up, with a message count that is not negative,
  and a sequence of events of the protocol: the engine confirms only messages that were
  sent, so the accept confirmations among the events are no more than the messages
  submitted. Of the state after some of the events and the state after all of them,
  \<open>sent\<close>, \<open>received\<close> and \<open>accepted\<close> have not decreased from the first to the second,
  and each is at most \<open>messages\<close>.
\<close>

theorem counters_monotone_and_bounded:
  assumes "0 \<le>s msgs"
    and "h0 = new_handler cm chm op i ho po pa secs msgs bsz cw dur"
    and "h1 = final (run E es1 h0)"
    and "h2 = final (run E (es1 @ es2) h0)"
    and "accepts (es1 @ es2) \<le> length (sends (calls h2))"
  shows "sint (sent h1) \<le> sint (sent h2) \<and> sint (sent h2) \<le> sint msgs \<and>
    sint (received h1) \<le> sint (received h2) \<and> sint (received h2) \<le> sint msgs \<and>
    sint (accepted h1) \<le> sint (accepted h2) \<and> sint (accepted h2) \<le> sint msgs"
proof -
  have cfg: "messages h0 = msgs" "accepted h0 = 0" by (simp_all add: assms(2) new_handler_def)
  have ok0: "sent_ok h0" "bounds_ok h0"
    by (simp_all add: assms(2) new_handler_ok(1) new_handler_ok(3) [OF assms(1)])
  from run_sent_ok [OF ok0(1), of E es1] run_bounds_ok [OF ok0(2), of E es1]
  have ok1: "sent_ok h1" "bounds_ok h1" "messages h1 = msgs"
    by (simp_all add: assms(3) progress_def cfg)
  from run_append_final [of E es1 es2 h0] obtain es'
    where es': "h2 = final (run E es' h1)" "accepts es' \<le> accepts es2"
    by (auto simp: assms(3,4))
  from run_sent_ok [OF ok1(1), of E es'] run_bounds_ok [OF ok1(2), of E es']
  have step: "sint (sent h1) \<le> sint (sent h2)" "sint (received h1) \<le> sint (received h2)"
    "bounds_ok h2" "messages h2 = msgs" "sent_ok h2"
    by (simp_all add: es'(1) progress_def ok1(3))
  from step(3-5) have "int (length (sends (calls h2))) \<le> sint msgs"
    by (simp add: sent_ok_def bounds_ok_def)
  with assms(5) have le: "int (accepts (es1 @ es2)) \<le> sint msgs" by simp
  have "sint msgs < 2 ^ 31" using sint_lt [of msgs] by simp
  with le have max: "int (accepts es1) + int (accepts es2) \<le> 2147483647" by simp
  then have "sint (accepted h0) + int (accepts es1) \<le> 2147483647" by (simp add: cfg)
  from run_accepted [OF this, of E] have a1: "sint (accepted h1) \<le> int (accepts es1)"
    by (simp add: assms(3) cfg)
  with max es'(2) have "sint (accepted h1) + int (accepts es') \<le> 2147483647" by simp
  from run_accepted [OF this, of E] a1 es' le
  have "sint (accepted h1) \<le> sint (accepted h2) \<and> sint (accepted h2) \<le> sint msgs" by simp
  with step show ?thesis by (simp add: bounds_ok_def)
qed

theorem counters_monotone_and_bounded_witness:
  "sint (sent (final (run example_env example_first
      (example_handler ''client'' ''active'' ''send'' 0 2)))) = 1 \<and>
   sint (sent (final (run example_env example_events
      (example_handler ''client'' ''active'' ''send'' 0 2)))) = 2 \<and>
   sint (accepted (final (run example_env example_first
      (example_handler ''client'' ''active'' ''send'' 0 2)))) \<le>
   sint (accepted (final (run example_env example_events
      (example_handler ''client'' ''active'' ''send'' 0 2)))) \<and>
   sint (accepted (final (run example_env example_events
      (example_handler ''client'' ''active'' ''send'' 0 2)))) \<le> sint (2 :: c_int)"
proof -
  have le: "(0 :: c_int) \<le>s 2" by (simp add: word_sle_eq)
  have acc: "accepts (example_first @ example_rest) \<le>
      length (sends (calls (final (run example_env (example_first @ example_rest)
        (example_handler ''client'' ''active'' ''send'' 0 2)))))"
    unfolding example_split
    by (simp add: example_send_run) (simp add: example_events_def)
  from counters_monotone_and_bounded [OF le example_handler_def refl refl acc]
  show ?thesis
    unfolding example_split by (simp add: example_send_run example_first_run)
qed

end
